theory Spec2Isabelle
  imports Main "HOL-Library.Sublist" "HOL-Library.Multiset"
begin

section \<open>Text primitives of the Python source\<close>

text \<open>
  The generator of \<^verbatim>\<open>biography_pdf_generator.py\<close> works on Python strings. They are
  modelled as \<^typ>\<open>string\<close>, one \<^typ>\<open>char\<close> per character, a \<^typ>\<open>char\<close> being a code point
  from 0 to 255. The character classes below are those of Python on these code points:
  \<^verbatim>\<open>str.lower\<close>, \<^verbatim>\<open>str.isspace\<close>, and the regular expression classes \<^verbatim>\<open>\d\<close> and \<^verbatim>\<open>\w\<close> on
  \<^verbatim>\<open>str\<close> patterns.
\<close>

definition char_code :: "char \<Rightarrow> nat" where
  "char_code c = of_char c"

text \<open>
  The characters that \<^verbatim>\<open>str.lower\<close> changes: \<open>A\<close> to \<open>Z\<close>, and the accented capitals 192
  to 222 without the multiplication sign 215. Each has its lower case 32 places further.
\<close>

definition is_upper :: "char \<Rightarrow> bool" where
  "is_upper c = ((65 \<le> char_code c \<and> char_code c \<le> 90) \<or>
                 (192 \<le> char_code c \<and> char_code c \<le> 222 \<and> char_code c \<noteq> 215))"

text \<open>
  The other cased letters: \<open>a\<close> to \<open>z\<close>, and 223 to 255 without the division sign 247.
\<close>

definition is_lower :: "char \<Rightarrow> bool" where
  "is_lower c = ((97 \<le> char_code c \<and> char_code c \<le> 122) \<or>
                 (223 \<le> char_code c \<and> char_code c \<noteq> 247))"

text \<open>\<^verbatim>\<open>\d\<close>: below 256 the decimal digits are \<open>0\<close> to \<open>9\<close> only.\<close>

definition is_digit :: "char \<Rightarrow> bool" where
  "is_digit c = (48 \<le> char_code c \<and> char_code c \<le> 57)"

text \<open>
  The alphanumeric characters above 127 that are not cased letters: the ordinal indicators
  170 and 186, the micro sign 181, the superscript digits 178, 179 and 185, and the
  fractions 188 to 190.
\<close>

definition is_other_alnum :: "char \<Rightarrow> bool" where
  "is_other_alnum c =
     (char_code c = 170 \<or> char_code c = 178 \<or> char_code c = 179 \<or> char_code c = 181 \<or>
      char_code c = 185 \<or> char_code c = 186 \<or>
      (188 \<le> char_code c \<and> char_code c \<le> 190))"

text \<open>\<^verbatim>\<open>\w\<close>: the alphanumeric characters and the underscore.\<close>

definition is_word_char :: "char \<Rightarrow> bool" where
  "is_word_char c =
     (is_upper c \<or> is_lower c \<or> is_digit c \<or> c = CHR ''_'' \<or> is_other_alnum c)"

text \<open>
  \<^verbatim>\<open>str.isspace\<close>: tab to carriage return, the four separators 28 to 31, the blank, the
  next-line control 133 and the no-break space 160.
\<close>

definition is_space :: "char \<Rightarrow> bool" where
  "is_space c = ((9 \<le> char_code c \<and> char_code c \<le> 13) \<or>
                 (28 \<le> char_code c \<and> char_code c \<le> 32) \<or>
                 char_code c = 133 \<or> char_code c = 160)"

definition lower_char :: "char \<Rightarrow> char" where
  "lower_char c = (if is_upper c then char_of (char_code c + 32) else c)"

definition lower :: "string \<Rightarrow> string" where
  "lower s = map lower_char s"

text \<open>\<^verbatim>\<open>s.strip()\<close>.\<close>

definition strip :: "string \<Rightarrow> string" where
  "strip s = rev (dropWhile is_space (rev (dropWhile is_space s)))"

text \<open>\<^verbatim>\<open>needle in haystack\<close> on strings: \<open>needle\<close> occurs as a contiguous block.\<close>

fun str_in :: "string \<Rightarrow> string \<Rightarrow> bool" where
  "str_in needle [] = (needle = [])"
| "str_in needle (h # hs) = (prefix needle (h # hs) \<or> str_in needle hs)"

section \<open>Pull-quote extraction\<close>

text \<open>The character class \<^verbatim>\<open>[.!?]\<close> of the sentence splitter.\<close>

definition is_terminator :: "char \<Rightarrow> bool" where
  "is_terminator c = (c = CHR ''.'' \<or> c = CHR ''!'' \<or> c = CHR ''?'')"

text \<open>
  \<^verbatim>\<open>re.split(r'[.!?]+', text)\<close>: the pieces between maximal runs of terminators. The
  flag says that the scan is inside such a run; \<open>cur\<close> is the current piece, reversed.
  A run at the start or at the end of the text leaves an empty piece there, as in Python.
\<close>

fun split_from :: "bool \<Rightarrow> string \<Rightarrow> string \<Rightarrow> string list" where
  "split_from in_run cur [] = [rev cur]"
| "split_from in_run cur (c # cs) =
     (if is_terminator c
      then (if in_run then split_from True [] cs else rev cur # split_from True [] cs)
      else split_from False (c # cur) cs)"

definition split_sentences :: "string \<Rightarrow> string list" where
  "split_sentences text = split_from False [] text"

definition emotional_words :: "string list" where
  "emotional_words = [''love'', ''remember'', ''never'', ''always'', ''first'']"

definition quote_chars :: "char list" where
  "quote_chars = [CHR 0x22, CHR 0x27, CHR ''!'']"

text \<open>The test of the first loop of \<^verbatim>\<open>_extract_pull_quote\<close> on a stripped sentence.\<close>

definition is_emotional :: "int \<Rightarrow> string \<Rightarrow> bool" where
  "is_emotional max_length clean =
     (30 < int (length clean) \<and> int (length clean) < max_length \<and>
      ((\<exists>ch \<in> set quote_chars. ch \<in> set clean) \<or>
       (\<exists>w \<in> set emotional_words. str_in w (lower clean))))"

text \<open>The test of the fallback loop.\<close>

definition is_interesting :: "int \<Rightarrow> string \<Rightarrow> bool" where
  "is_interesting max_length clean =
     (40 < int (length clean) \<and> int (length clean) < max_length)"

text \<open>
  \<^verbatim>\<open>_extract_pull_quote(text, max_length)\<close>: two passes over the stripped sentences, the
  first hit of a pass returned with a period appended, \<open>None\<close> when neither pass hits.
\<close>

definition extract_pull_quote :: "string \<Rightarrow> int \<Rightarrow> string option" where
  "extract_pull_quote text max_length =
     (let sentences = map strip (split_sentences text) in
      case find (is_emotional max_length) sentences of
        Some clean \<Rightarrow> Some (clean @ ''.'')
      | None \<Rightarrow>
          (case find (is_interesting max_length) sentences of
             Some clean \<Rightarrow> Some (clean @ ''.'')
           | None \<Rightarrow> None))"

section \<open>Name highlighting\<close>

text \<open>
  \<^verbatim>\<open>\b\<close> holds between two positions when exactly one of the neighbouring characters is a
  word character; outside the text there is none.
\<close>

definition word_before :: "char option \<Rightarrow> bool" where
  "word_before prev = (case prev of None \<Rightarrow> False | Some c \<Rightarrow> is_word_char c)"

definition word_after :: "string \<Rightarrow> bool" where
  "word_after s = (case s of [] \<Rightarrow> False | c # _ \<Rightarrow> is_word_char c)"

definition boundary :: "char option \<Rightarrow> string \<Rightarrow> bool" where
  "boundary prev s = (word_before prev \<noteq> word_after s)"

text \<open>
  The pattern \<^verbatim>\<open>\b(name)\b\<close> with \<^verbatim>\<open>re.IGNORECASE\<close> at one position: \<open>prev\<close> is the
  character before it and \<open>s\<close> the text from it on.
\<close>

definition matches_at :: "string \<Rightarrow> char option \<Rightarrow> string \<Rightarrow> bool" where
  "matches_at name prev s =
     (let n = length name in
      n \<le> length s \<and> lower (take n s) = lower name \<and> boundary prev s \<and>
      boundary (if n = 0 then prev else Some (last (take n s))) (drop n s))"

definition highlight_span :: "string \<Rightarrow> string" where
  "highlight_span m = ''<span class=\"highlight-name\">'' @ m @ ''</span>''"

text \<open>
  \<^verbatim>\<open>re.sub\<close> for one name, scanning left to right. \<open>skip\<close> counts the characters of a
  match already emitted inside its span. An empty name matches the empty string at every
  word boundary.
\<close>

fun sub_name :: "string \<Rightarrow> char option \<Rightarrow> nat \<Rightarrow> string \<Rightarrow> string" where
  "sub_name name prev skip [] =
     (if skip = 0 \<and> matches_at name prev [] then highlight_span [] else [])"
| "sub_name name prev skip (c # cs) =
     (if 0 < skip then sub_name name (Some c) (skip - 1) cs
      else if matches_at name prev (c # cs) then
        (if name = [] then highlight_span [] @ c # sub_name name (Some c) 0 cs
         else highlight_span (take (length name) (c # cs)) @
              sub_name name (Some c) (length name - 1) cs)
      else c # sub_name name (Some c) 0 cs)"

text \<open>\<^verbatim>\<open>_highlight_names\<close>: one substitution per configured name, in order.\<close>

definition highlight_names :: "string list \<Rightarrow> string \<Rightarrow> string" where
  "highlight_names names text = foldl (\<lambda>t name. sub_name name None 0 t) text names"

section \<open>Photos, chapters and the generator state\<close>

text \<open>
  A catalog entry as \<^verbatim>\<open>generate_biography_pdf\<close> builds it from a row of the media table;
  an absent year is \<open>None\<close>.
\<close>

record photo =
  photo_id :: int
  filename :: string
  ptitle :: string
  description :: string
  year :: "int option"
  people :: string

record "chapter" =
  title :: string
  narrative :: string

text \<open>The two fields of \<^verbatim>\<open>BiographyPDFGenerator\<close> the generation reads and writes.\<close>

record generator =
  used_images :: "string set"
  family_names :: "string list"

section \<open>Matching photos to a chapter\<close>

text \<open>\<^verbatim>\<open>re.search(r'(\d{4})', chapter_title)\<close>: the leftmost four consecutive digits.\<close>

fun search_year :: "string \<Rightarrow> string option" where
  "search_year [] = None"
| "search_year (c # cs) =
     (if 4 \<le> length (c # cs) \<and> list_all is_digit (take 4 (c # cs))
      then Some (take 4 (c # cs)) else search_year cs)"

definition int_of_digits :: "string \<Rightarrow> int" where
  "int_of_digits ds = foldl (\<lambda>a c. 10 * a + int (char_code c - 48)) 0 ds"

definition chapter_year_of :: "string \<Rightarrow> int option" where
  "chapter_year_of chapter_title = map_option int_of_digits (search_year chapter_title)"

text \<open>
  Python's truth test on a year, as in \<^verbatim>\<open>if chapter_year and photo.get('year')\<close>: \<open>None\<close>
  and 0 are both false.
\<close>

definition year_truthy :: "int option \<Rightarrow> bool" where
  "year_truthy y = (case y of None \<Rightarrow> False | Some v \<Rightarrow> v \<noteq> 0)"

definition year_points :: "int option \<Rightarrow> int option \<Rightarrow> int" where
  "year_points chapter_year photo_year =
     (case (chapter_year, photo_year) of
        (Some cy, Some py) \<Rightarrow>
          (if year_truthy chapter_year \<and> year_truthy photo_year then
             (let year_diff = \<bar>py - cy\<bar> in
              if year_diff = 0 then 100
              else if year_diff \<le> 2 then 50
              else if year_diff \<le> 5 then 20
              else 0)
           else 0)
      | _ \<Rightarrow> 0)"

definition photo_text_of :: "photo \<Rightarrow> string" where
  "photo_text_of p = lower (ptitle p @ '' '' @ description p @ '' '' @ people p)"

definition chapter_combined_of :: "string \<Rightarrow> string \<Rightarrow> string" where
  "chapter_combined_of chapter_title chapter_text = lower (chapter_title @ '' '' @ chapter_text)"

text \<open>
  \<^verbatim>\<open>re.findall(r'\b\w{4,}\b', s)\<close>: the maximal runs of word characters that are at
  least four long, left to right. \<open>cur\<close> is the current run, reversed.
\<close>

fun word_runs :: "string \<Rightarrow> string \<Rightarrow> string list" where
  "word_runs cur [] = (if cur = [] then [] else [rev cur])"
| "word_runs cur (c # cs) =
     (if is_word_char c then word_runs (c # cur) cs
      else if cur = [] then word_runs [] cs
      else rev cur # word_runs [] cs)"

definition findall_words :: "string \<Rightarrow> string list" where
  "findall_words s = filter (\<lambda>w. 4 \<le> length w) (word_runs [] s)"

text \<open>The keywords of a chapter: the loop runs over \<^verbatim>\<open>set(keywords)\<close>, each word once.\<close>

definition chapter_keywords :: "string \<Rightarrow> string list" where
  "chapter_keywords chapter_combined = remdups (findall_words (take 500 chapter_combined))"

text \<open>The score of one photo that is not yet used: the body of the loop over the catalog.\<close>

definition photo_score :: "string list \<Rightarrow> string \<Rightarrow> string \<Rightarrow> photo \<Rightarrow> int" where
  "photo_score names chapter_title chapter_text p =
     (let score = 0 + year_points (chapter_year_of chapter_title) (year p);
          photo_text = photo_text_of p;
          chapter_combined = chapter_combined_of chapter_title chapter_text;
          score = foldl (\<lambda>s name.
                    if str_in (lower name) photo_text \<and> str_in (lower name) chapter_combined
                    then s + 30 else s) score names;
          score = foldl (\<lambda>s keyword. if str_in keyword photo_text then s + 5 else s)
                    score (chapter_keywords chapter_combined)
      in score)"

text \<open>The loop over the catalog: used photos are skipped, the others kept when they score.\<close>

fun score_photos ::
  "string list \<Rightarrow> string \<Rightarrow> string \<Rightarrow> string set \<Rightarrow> photo list \<Rightarrow> (int \<times> photo) list" where
  "score_photos names chapter_title chapter_text used [] = []"
| "score_photos names chapter_title chapter_text used (p # ps) =
     (if filename p \<in> used then score_photos names chapter_title chapter_text used ps
      else (let score = photo_score names chapter_title chapter_text p in
            if 0 < score
            then (score, p) # score_photos names chapter_title chapter_text used ps
            else score_photos names chapter_title chapter_text used ps))"

text \<open>
  \<^verbatim>\<open>list.sort(reverse=True, key=...)\<close>. Python's sort is stable, and with
  \<^verbatim>\<open>reverse=True\<close> it reverses the list, sorts it stably and reverses it again, so
  elements with equal keys keep their order.
\<close>

definition sort_reverse :: "('a \<Rightarrow> int) \<Rightarrow> 'a list \<Rightarrow> 'a list" where
  "sort_reverse key xs = rev (sort_key key (rev xs))"

text \<open>The slice \<^verbatim>\<open>xs[:n]\<close>; a negative \<open>n\<close> counts from the end.\<close>

definition slice_to :: "int \<Rightarrow> 'a list \<Rightarrow> 'a list" where
  "slice_to n xs = (if 0 \<le> n then take (nat n) xs else take (nat (int (length xs) + n)) xs)"

definition mark_used :: "string set \<Rightarrow> photo list \<Rightarrow> string set" where
  "mark_used used selected = foldl (\<lambda>u p. insert (filename p) u) used selected"

text \<open>\<^verbatim>\<open>_match_photos_to_chapter\<close>: the selected photos and the generator after marking them.\<close>

definition match_photos_to_chapter ::
  "generator \<Rightarrow> string \<Rightarrow> string \<Rightarrow> photo list \<Rightarrow> int \<Rightarrow> photo list \<times> generator" where
  "match_photos_to_chapter g chapter_title chapter_text available_photos max_photos =
     (if available_photos = [] then ([], g)
      else
        (let scored_photos = score_photos (family_names g) chapter_title chapter_text
                               (used_images g) available_photos;
             scored_photos = sort_reverse fst scored_photos;
             selected = map snd (slice_to max_photos scored_photos)
         in (selected, g\<lparr>used_images := mark_used (used_images g) selected\<rparr>)))"

section \<open>Chapter layout\<close>

text \<open>
  The markup that the generator concatenates is kept as a list of fragments, one constructor
  per element written, in the order of the \<^verbatim>\<open>html +=\<close> statements. Image fragments carry the
  resolved path and the caption.
\<close>

datatype fragment =
    DocOpen | DocClose
  | CoverOpen | CoverBackground string | CoverContentOpen
  | Heading1 string | Heading2 string | CreatedDate string
  | TocOpen | TocHeading | TocEntryOpen | TocEntryContentOpen
  | TocThumbnail string | TocTextOpen | TocChapterTitle string
  | ChapterOpen | ChapterTitle string
  | FullpageImage string string
  | NarrativeOpen string
  | Paragraph string
  | PullQuote string
  | PhotoSectionOpen nat | PhotoItem string string | PhotoSectionClose
  | ImageEmbed string string
  | DivClose

text \<open>
  \<^verbatim>\<open>_get_safe_photo_path(upload_folder, filename)\<close> asks the file system; it is a parameter
  of the model, of this type: the absolute path of the file, or \<open>None\<close>.
\<close>

type_synonym safe_path = "string \<Rightarrow> string \<Rightarrow> string option"

text \<open>\<^verbatim>\<open>str(n)\<close> for an integer.\<close>

function string_of_nat :: "nat \<Rightarrow> string" where
  "string_of_nat n =
     (if n < 10 then [char_of (48 + n)]
      else string_of_nat (n div 10) @ [char_of (48 + n mod 10)])"
  by pat_completeness auto
termination
  by (relation "measure id") auto

declare string_of_nat.simps [simp del]

definition string_of_int :: "int \<Rightarrow> string" where
  "string_of_int i = (if i < 0 then CHR ''-'' # string_of_nat (nat (- i)) else string_of_nat (nat i))"

text \<open>The caption: title, else description, with the year in parentheses when it is truthy.\<close>

definition caption_of :: "photo \<Rightarrow> string" where
  "caption_of p =
     (let caption = (if ptitle p \<noteq> [] then ptitle p else description p) in
      case year p of
        None \<Rightarrow> caption
      | Some y \<Rightarrow>
          (if y = 0 then caption
           else if caption \<noteq> [] then caption @ '' ('' @ string_of_int y @ '')''
           else ''('' @ string_of_int y @ '')''))"

fun photo_items :: "safe_path \<Rightarrow> string \<Rightarrow> photo list \<Rightarrow> fragment list" where
  "photo_items gsp upload_folder [] = []"
| "photo_items gsp upload_folder (p # ps) =
     (case gsp upload_folder (filename p) of
        None \<Rightarrow> photo_items gsp upload_folder ps
      | Some photo_path \<Rightarrow> PhotoItem photo_path (caption_of p) # photo_items gsp upload_folder ps)"

text \<open>\<^verbatim>\<open>_create_photo_layout\<close>.\<close>

definition create_photo_layout :: "safe_path \<Rightarrow> photo list \<Rightarrow> string \<Rightarrow> fragment list" where
  "create_photo_layout gsp photos upload_folder =
     (if photos = [] then []
      else PhotoSectionOpen (length photos) # photo_items gsp upload_folder photos @
           [PhotoSectionClose])"

text \<open>\<^verbatim>\<open>narrative.split('\n\n')\<close>; \<open>cur\<close> is the current piece, reversed.\<close>

fun split_blank :: "string \<Rightarrow> string \<Rightarrow> string list" where
  "split_blank cur [] = [rev cur]"
| "split_blank cur [c] = [rev (c # cur)]"
| "split_blank cur (c # d # cs) =
     (if c = CHR 0x0A \<and> d = CHR 0x0A then rev cur # split_blank [] cs
      else split_blank (c # cur) (d # cs))"

text \<open>\<^verbatim>\<open>[p.strip() for p in narrative.split('\n\n') if p.strip()]\<close>.\<close>

definition paragraphs_of :: "string \<Rightarrow> string list" where
  "paragraphs_of txt = filter (\<lambda>p. p \<noteq> []) (map strip (split_blank [] txt))"

definition paragraph_fragments :: "string list \<Rightarrow> fragment list" where
  "paragraph_fragments paras = map Paragraph paras"

definition quote_fragments :: "string option \<Rightarrow> fragment list" where
  "quote_fragments pull_quote = (case pull_quote of None \<Rightarrow> [] | Some q \<Rightarrow> [PullQuote q])"

text \<open>The paragraph loop of the facing-page layout: the quote follows paragraph \<open>halfway\<close>.\<close>

fun facing_paragraphs :: "nat \<Rightarrow> nat \<Rightarrow> string option \<Rightarrow> string list \<Rightarrow> fragment list" where
  "facing_paragraphs i halfway pull_quote [] = []"
| "facing_paragraphs i halfway pull_quote (para # paras) =
     Paragraph para # (if i = halfway then quote_fragments pull_quote else []) @
     facing_paragraphs (Suc i) halfway pull_quote paras"

datatype layout = FacingSpread | GridWithText | EmbeddedImage | SimpleLayout

text \<open>
  The conditions of the \<^verbatim>\<open>if\<close>/\<^verbatim>\<open>elif\<close> chain of \<^verbatim>\<open>_create_chapter_html\<close>, in its order,
  on the number of photos and the length of the highlighted narrative.
\<close>

definition select_layout :: "nat \<Rightarrow> nat \<Rightarrow> layout" where
  "select_layout num_photos text_length =
     (let has_photos = 0 < num_photos in
      if has_photos \<and> num_photos = 1 \<and> 800 < text_length then FacingSpread
      else if has_photos \<and> 2 \<le> num_photos then GridWithText
      else if has_photos \<and> num_photos = 1 \<and> 400 < text_length then EmbeddedImage
      else SimpleLayout)"

definition column_class :: "nat \<Rightarrow> string" where
  "column_class text_length = (if 1200 < text_length then ''two-column'' else [])"

text \<open>The body of each branch, between the chapter title and the closing tag.\<close>

definition facing_body ::
  "safe_path \<Rightarrow> string \<Rightarrow> photo list \<Rightarrow> string list \<Rightarrow> string option \<Rightarrow> fragment list" where
  "facing_body gsp upload_folder photos paragraphs pull_quote =
     (case photos of
        [] \<Rightarrow> []
      | p # _ \<Rightarrow>
          (case gsp upload_folder (filename p) of
             None \<Rightarrow> []
           | Some photo_path \<Rightarrow>
               FullpageImage photo_path (caption_of p) # NarrativeOpen ''chapter-narrative'' #
               facing_paragraphs 0 (length paragraphs div 2) pull_quote paragraphs @
               [DivClose]))"

definition grid_body ::
  "safe_path \<Rightarrow> string \<Rightarrow> photo list \<Rightarrow> string list \<Rightarrow> string option \<Rightarrow> nat \<Rightarrow> fragment list" where
  "grid_body gsp upload_folder photos paragraphs pull_quote text_length =
     NarrativeOpen ''chapter-narrative'' # paragraph_fragments (take 1 paragraphs) @ [DivClose] @
     quote_fragments pull_quote @
     create_photo_layout gsp (take 3 photos) upload_folder @
     (if 1 < length paragraphs
      then NarrativeOpen (''chapter-narrative '' @ column_class text_length) #
           paragraph_fragments (drop 1 paragraphs) @ [DivClose]
      else [])"

definition embedded_body ::
  "safe_path \<Rightarrow> string \<Rightarrow> photo list \<Rightarrow> string list \<Rightarrow> fragment list" where
  "embedded_body gsp upload_folder photos paragraphs =
     NarrativeOpen ''chapter-narrative'' # paragraph_fragments (take 1 paragraphs) @ [DivClose] @
     (case photos of
        [] \<Rightarrow> []
      | p # _ \<Rightarrow>
          (case gsp upload_folder (filename p) of
             None \<Rightarrow> []
           | Some photo_path \<Rightarrow> [ImageEmbed photo_path (caption_of p)])) @
     NarrativeOpen ''chapter-narrative'' # paragraph_fragments (drop 1 paragraphs) @ [DivClose]"

definition simple_body ::
  "safe_path \<Rightarrow> string \<Rightarrow> photo list \<Rightarrow> string list \<Rightarrow> string option \<Rightarrow> nat \<Rightarrow> fragment list" where
  "simple_body gsp upload_folder photos paragraphs pull_quote text_length =
     NarrativeOpen (''chapter-narrative '' @ column_class text_length) #
     paragraph_fragments paragraphs @ [DivClose] @
     quote_fragments pull_quote @
     create_photo_layout gsp photos upload_folder"

text \<open>\<^verbatim>\<open>_create_chapter_html\<close>; the pull quote is taken with the default length 150.\<close>

definition create_chapter_html ::
  "generator \<Rightarrow> safe_path \<Rightarrow> chapter \<Rightarrow> photo list \<Rightarrow> string \<Rightarrow> fragment list" where
  "create_chapter_html g gsp ch photos upload_folder =
     (let highlighted = highlight_names (family_names g) (narrative ch);
          pull_quote = extract_pull_quote highlighted 150;
          text_length = length highlighted;
          paragraphs = paragraphs_of highlighted
      in [ChapterOpen, ChapterTitle (title ch)] @
         (case select_layout (length photos) text_length of
            FacingSpread \<Rightarrow> facing_body gsp upload_folder photos paragraphs pull_quote
          | GridWithText \<Rightarrow> grid_body gsp upload_folder photos paragraphs pull_quote text_length
          | EmbeddedImage \<Rightarrow> embedded_body gsp upload_folder photos paragraphs
          | SimpleLayout \<Rightarrow> simple_body gsp upload_folder photos paragraphs pull_quote text_length) @
         [DivClose])"

text \<open>The layout a chapter gets: the branch that \<^verbatim>\<open>_create_chapter_html\<close> takes.\<close>

definition chapter_layout :: "generator \<Rightarrow> chapter \<Rightarrow> photo list \<Rightarrow> layout" where
  "chapter_layout g ch photos =
     select_layout (length photos) (length (highlight_names (family_names g) (narrative ch)))"

section \<open>Assembling the document\<close>

text \<open>
  A row of the media table: id, filename, title, description, year, people; every column
  but the id may be NULL.
\<close>

type_synonym media_row =
  "int \<times> string option \<times> string option \<times> string option \<times> int option \<times> string option"

text \<open>
  A database connection is modelled by what the query of \<^verbatim>\<open>generate_biography_pdf\<close>
  does on it: it raises (\<open>Inl\<close>, with the message of the exception) or it yields the
  rows, in the order of the \<^verbatim>\<open>ORDER BY\<close> clause.
\<close>

type_synonym db_connection = "string + media_row list"

datatype log_event =
    InfoGenerating nat
  | InfoLoaded nat
  | ErrorLoading string
  | InfoMatched nat string
  | InfoConverting
  | InfoGenerated
  | InfoUsed nat

text \<open>\<^verbatim>\<open>value or ''\<close>.\<close>

definition or_empty :: "string option \<Rightarrow> string" where
  "or_empty v = (case v of None \<Rightarrow> [] | Some s \<Rightarrow> s)"

definition photo_of_row :: "media_row \<Rightarrow> photo" where
  "photo_of_row row =
     (case row of (i, fname, t, d, y, pp) \<Rightarrow>
        \<lparr>photo_id = i, filename = or_empty fname, ptitle = or_empty t,
         description = or_empty d, year = y, people = or_empty pp\<rparr>)"

text \<open>
  Loading the catalog: without a connection, or when the query raises, the list stays
  empty; the exception is logged and goes no further.
\<close>

definition load_photos :: "db_connection option \<Rightarrow> photo list \<times> log_event list" where
  "load_photos db =
     (case db of
        None \<Rightarrow> ([], [])
      | Some (Inl e) \<Rightarrow> ([], [ErrorLoading e])
      | Some (Inr rows) \<Rightarrow> (map photo_of_row rows, [InfoLoaded (length rows)]))"

text \<open>
  The loop of the automatic cover: the first photo with people, or with \<open>family\<close> in its
  title, whose file resolves. The result is the path and the filename marked as used.
\<close>

fun auto_cover :: "safe_path \<Rightarrow> string \<Rightarrow> photo list \<Rightarrow> (string \<times> string) option" where
  "auto_cover gsp upload_folder [] = None"
| "auto_cover gsp upload_folder (p # ps) =
     (if people p \<noteq> [] \<or> str_in ''family'' (lower (ptitle p)) then
        (case gsp upload_folder (filename p) of
           Some cover_photo_path \<Rightarrow> Some (cover_photo_path, filename p)
         | None \<Rightarrow> auto_cover gsp upload_folder ps)
      else auto_cover gsp upload_folder ps)"

text \<open>
  The cover: an explicit hero photo is resolved and nothing else; otherwise the automatic
  choice, then the first photo of the catalog, each marked as used when its file resolves.
\<close>

definition select_cover ::
  "generator \<Rightarrow> safe_path \<Rightarrow> string \<Rightarrow> string option \<Rightarrow> photo list \<Rightarrow> string option \<times> generator" where
  "select_cover g gsp upload_folder hero_photo available_photos =
     (if hero_photo \<noteq> None \<and> hero_photo \<noteq> Some [] then
        (gsp upload_folder (or_empty hero_photo), g)
      else
        (case available_photos of
           [] \<Rightarrow> (None, g)
         | first_photo # _ \<Rightarrow>
             (case auto_cover gsp upload_folder available_photos of
                Some (cover_photo_path, used_name) \<Rightarrow>
                  (Some cover_photo_path, g\<lparr>used_images := insert used_name (used_images g)\<rparr>)
              | None \<Rightarrow>
                  (case gsp upload_folder (filename first_photo) of
                     Some cover_photo_path \<Rightarrow>
                       (Some cover_photo_path,
                        g\<lparr>used_images := insert (filename first_photo) (used_images g)\<rparr>)
                   | None \<Rightarrow> (None, g)))))"

text \<open>
  The first loop of the table of contents: one match with \<^verbatim>\<open>max_photos=1\<close> per chapter,
  its path stored under the chapter's title.
\<close>

fun collect_thumbnails ::
  "safe_path \<Rightarrow> string \<Rightarrow> photo list \<Rightarrow> chapter list \<Rightarrow> generator \<Rightarrow> (string \<rightharpoonup> string) \<Rightarrow>
   (string \<rightharpoonup> string) \<times> generator" where
  "collect_thumbnails gsp upload_folder available_photos [] g thumbs = (thumbs, g)"
| "collect_thumbnails gsp upload_folder available_photos (ch # chs) g thumbs =
     (case match_photos_to_chapter g (title ch) (narrative ch) available_photos 1 of
        (chapter_photos, g') \<Rightarrow>
          collect_thumbnails gsp upload_folder available_photos chs g'
            (case chapter_photos of
               [] \<Rightarrow> thumbs
             | p # _ \<Rightarrow>
                 (case gsp upload_folder (filename p) of
                    None \<Rightarrow> thumbs
                  | Some photo_path \<Rightarrow> thumbs(title ch \<mapsto> photo_path))))"

text \<open>One entry of the table of contents: the thumbnail is looked up by the title.\<close>

definition toc_entry :: "(string \<rightharpoonup> string) \<Rightarrow> chapter \<Rightarrow> fragment list" where
  "toc_entry thumbs ch =
     [TocEntryOpen, TocEntryContentOpen] @
     (case thumbs (title ch) of None \<Rightarrow> [] | Some photo_path \<Rightarrow> [TocThumbnail photo_path]) @
     [TocTextOpen, TocChapterTitle (title ch), DivClose, DivClose, DivClose]"

text \<open>The loop over the chapters: a match with \<^verbatim>\<open>max_photos=3\<close>, then the chapter's markup.\<close>

fun render_chapters ::
  "safe_path \<Rightarrow> string \<Rightarrow> photo list \<Rightarrow> chapter list \<Rightarrow> generator \<Rightarrow>
   fragment list \<times> generator \<times> log_event list" where
  "render_chapters gsp upload_folder available_photos [] g = ([], g, [])"
| "render_chapters gsp upload_folder available_photos (ch # chs) g =
     (case match_photos_to_chapter g (title ch) (narrative ch) available_photos 3 of
        (chapter_photos, g') \<Rightarrow>
          (case render_chapters gsp upload_folder available_photos chs g' of
             (html, g'', events) \<Rightarrow>
               (create_chapter_html g' gsp ch chapter_photos upload_folder @ html, g'',
                (if chapter_photos \<noteq> []
                 then [InfoMatched (length chapter_photos) (take 40 (title ch))] else []) @
                events)))"

text \<open>
  \<^verbatim>\<open>generate_biography_pdf\<close> up to the markup handed to the renderer. \<open>today\<close> is the
  formatted date of the run. The result is the markup, the generator at the end, and the
  log.
\<close>

definition build_html ::
  "generator \<Rightarrow> safe_path \<Rightarrow> string \<Rightarrow> chapter list \<Rightarrow> string \<Rightarrow> string \<Rightarrow> string \<Rightarrow>
   db_connection option \<Rightarrow> string option \<Rightarrow> string list option \<Rightarrow>
   fragment list \<times> generator \<times> log_event list" where
  "build_html g0 gsp today chapters doc_title subtitle upload_folder db hero_photo names =
     (let g = (case names of None \<Rightarrow> g0
               | Some ns \<Rightarrow> (if ns \<noteq> [] then g0\<lparr>family_names := ns\<rparr> else g0));
          g = g\<lparr>used_images := {}\<rparr>;
          (available_photos, load_events) = load_photos db;
          (cover_photo_path, g) = select_cover g gsp upload_folder hero_photo available_photos;
          cover = CoverOpen #
                  (case cover_photo_path of None \<Rightarrow> [] | Some cp \<Rightarrow> [CoverBackground cp]) @
                  [CoverContentOpen, Heading1 doc_title, Heading2 subtitle, CreatedDate today,
                   DivClose, DivClose];
          (thumbs, g) = collect_thumbnails gsp upload_folder available_photos chapters g Map.empty;
          toc = [TocOpen, TocHeading] @ concat (map (toc_entry thumbs) chapters) @ [DivClose];
          (chapters_html, g, match_events) =
             render_chapters gsp upload_folder available_photos chapters g
      in (DocOpen # cover @ toc @ chapters_html @ [DocClose], g,
          InfoGenerating (length chapters) # load_events @ match_events))"

text \<open>
  The whole method. The renderer (\<^verbatim>\<open>write_pdf\<close>) is a parameter: it returns the bytes of
  the document or raises, and its exception is the only one that reaches the caller.
\<close>

definition generate_biography_pdf ::
  "(fragment list \<Rightarrow> string \<Rightarrow> string + 'pdf) \<Rightarrow> generator \<Rightarrow> safe_path \<Rightarrow> string \<Rightarrow>
   chapter list \<Rightarrow> string \<Rightarrow> string \<Rightarrow> string \<Rightarrow>
   db_connection option \<Rightarrow> string option \<Rightarrow> string list option \<Rightarrow>
   (string + 'pdf) \<times> generator \<times> log_event list" where
  "generate_biography_pdf write_pdf g0 gsp today chapters doc_title subtitle upload_folder db
     hero_photo names =
     (case build_html g0 gsp today chapters doc_title subtitle upload_folder db hero_photo names of
        (html, g, events) \<Rightarrow>
          (case write_pdf html upload_folder of
             Inl e \<Rightarrow> (Inl e, g, events @ [InfoConverting])
           | Inr pdf \<Rightarrow>
               (Inr pdf, g,
                events @ [InfoConverting, InfoGenerated, InfoUsed (card (used_images g))])))"

section \<open>Notions of the specification\<close>

text \<open>The fragments that show a photo.\<close>

fun is_image :: "fragment \<Rightarrow> bool" where
  "is_image (CoverBackground _) = True"
| "is_image (TocThumbnail _) = True"
| "is_image (FullpageImage _ _) = True"
| "is_image (PhotoItem _ _) = True"
| "is_image (ImageEmbed _ _) = True"
| "is_image _ = False"

text \<open>The mapping from chapter titles to thumbnails that the table of contents reads.\<close>

definition toc_thumbnails ::
  "safe_path \<Rightarrow> string \<Rightarrow> photo list \<Rightarrow> chapter list \<Rightarrow> generator \<Rightarrow> (string \<rightharpoonup> string)" where
  "toc_thumbnails gsp upload_folder available_photos chs g =
     fst (collect_thumbnails gsp upload_folder available_photos chs g Map.empty)"

text \<open>
  The candidates of one matching call, in catalog order: the photos that are not used yet
  and score above zero.
\<close>

definition candidates :: "generator \<Rightarrow> string \<Rightarrow> string \<Rightarrow> photo list \<Rightarrow> photo list" where
  "candidates g chapter_title chapter_text available_photos =
     filter (\<lambda>p. filename p \<notin> used_images g \<and>
                 0 < photo_score (family_names g) chapter_title chapter_text p)
       available_photos"

text \<open>
  The score as the specification words it, a sum of three terms. The year term comes in
  two versions: \<open>claimed_year_term\<close> is the specification's, which is 0 only when a year is
  absent; \<open>amended_year_term\<close> is also 0 when a year is the number 0.
\<close>

definition claimed_year_term :: "int option \<Rightarrow> int option \<Rightarrow> int" where
  "claimed_year_term chapter_year photo_year =
     (case (chapter_year, photo_year) of
        (Some cy, Some py) \<Rightarrow>
          (if \<bar>py - cy\<bar> = 0 then 100 else if \<bar>py - cy\<bar> \<le> 2 then 50
           else if \<bar>py - cy\<bar> \<le> 5 then 20 else 0)
      | _ \<Rightarrow> 0)"


text \<open>30 for each configured name that occurs in the photo's text and in the chapter's.\<close>

definition name_term :: "string list \<Rightarrow> string \<Rightarrow> string \<Rightarrow> photo \<Rightarrow> int" where
  "name_term names chapter_title chapter_text p =
     30 * int (length (filter (\<lambda>name.
        str_in (lower name) (lower (ptitle p @ '' '' @ description p @ '' '' @ people p)) \<and>
        str_in (lower name) (lower (chapter_title @ '' '' @ chapter_text))) names))"

text \<open>
  5 for each distinct keyword, a word of four characters or more in the first 500
  characters of the chapter's lower-cased text, that occurs in the photo's text.
\<close>

definition keyword_term :: "string \<Rightarrow> string \<Rightarrow> photo \<Rightarrow> int" where
  "keyword_term chapter_title chapter_text p =
     5 * int (card {k \<in> set (findall_words (take 500 (lower (chapter_title @ '' '' @ chapter_text)))).
                    str_in k (lower (ptitle p @ '' '' @ description p @ '' '' @ people p))})"

definition claimed_score :: "string list \<Rightarrow> string \<Rightarrow> string \<Rightarrow> photo \<Rightarrow> int" where
  "claimed_score names chapter_title chapter_text p =
     claimed_year_term (chapter_year_of chapter_title) (year p) +
     name_term names chapter_title chapter_text p + keyword_term chapter_title chapter_text p"


subsection \<open>Example data\<close>

definition fresh :: generator where
  "fresh = \<lparr>used_images = {}, family_names = []\<rparr>"

text \<open>A file system in which every photo exists, and one in which none does.\<close>

definition in_folder :: safe_path where
  "in_folder upload_folder name = Some (upload_folder @ ''/'' @ name)"

definition missing :: safe_path where
  "missing upload_folder name = None"

definition photo_in :: "string \<Rightarrow> int \<Rightarrow> photo" where
  "photo_in name y = \<lparr>photo_id = 1, filename = name, ptitle = ''Lake'', description = [],
                       year = Some y, people = []\<rparr>"

definition photo_named :: "string \<Rightarrow> photo" where
  "photo_named name = photo_in name 1990"


definition lake_photo :: photo where
  "lake_photo = photo_named ''lake.jpg''"

definition old_photo :: photo where
  "old_photo = \<lparr>photo_id = 7, filename = ''old.jpg'', ptitle = [], description = [],
                 year = Some 3, people = []\<rparr>"

text \<open>A photo whose title is an accented word in capitals.\<close>

definition cafe_photo :: photo where
  "cafe_photo = \<lparr>photo_id = 3, filename = ''cafe.jpg'', ptitle = ''CAF'' @ [CHR 0xC9],
                  description = [], year = None, people = []\<rparr>"

definition trip_chapter :: "chapter" where
  "trip_chapter = \<lparr>title = ''The 1990 trip'', narrative = ''We went.''\<rparr>"

definition media_row_named :: "string \<Rightarrow> media_row" where
  "media_row_named name = (1, Some name, Some ''Lake'', None, Some 1990, None)"

section \<open>Properties of the pull-quote extractor\<close>

lemmas pull_quote_eval_defs =
  extract_pull_quote_def split_sentences_def strip_def is_space_def char_code_def
  is_terminator_def is_emotional_def is_interesting_def quote_chars_def emotional_words_def
  lower_def lower_char_def is_upper_def

lemma split_from_no_terminator:
  "\<forall>c \<in> set cur. \<not> is_terminator c \<Longrightarrow>
   \<forall>p \<in> set (split_from in_run cur s). \<forall>c \<in> set p. \<not> is_terminator c"
proof (induction s arbitrary: in_run cur)
  case Nil
  then show ?case by simp
next
  case (Cons a s)
  have empty: "\<forall>p \<in> set (split_from True [] s). \<forall>c \<in> set p. \<not> is_terminator c"
    by (rule Cons.IH) simp
  show ?case
  proof (cases "is_terminator a")
    case True
    with empty Cons.prems show ?thesis by auto
  next
    case False
    with Cons.prems have "\<forall>c \<in> set (a # cur). \<not> is_terminator c" by simp
    from Cons.IH [OF this] False show ?thesis by simp
  qed
qed

lemma set_strip_subset: "set (strip s) \<subseteq> set s"
proof -
  have "set (strip s) \<subseteq> set (dropWhile is_space s)"
    unfolding strip_def using set_dropWhileD [of _ is_space "rev (dropWhile is_space s)"] by auto
  also have "\<dots> \<subseteq> set s"
    using set_dropWhileD [of _ is_space s] by auto
  finally show ?thesis .
qed

lemma sentence_no_terminator:
  assumes "clean \<in> set (map strip (split_sentences txt))" and "c \<in> set clean"
  shows "\<not> is_terminator c"
proof -
  from assms(1) obtain p where p: "p \<in> set (split_sentences txt)" and cl: "clean = strip p"
    by auto
  from assms(2) cl have "c \<in> set p" using set_strip_subset by blast
  have "\<forall>p \<in> set (split_from False [] txt). \<forall>c \<in> set p. \<not> is_terminator c"
    by (rule split_from_no_terminator) simp
  with p \<open>c \<in> set p\<close> show ?thesis
    by (simp add: split_sentences_def)
qed

lemma extract_pull_quote_shape:
  assumes "extract_pull_quote txt max_length = Some q"
  shows "\<exists>clean. q = clean @ ''.'' \<and> clean \<in> set (map strip (split_sentences txt))"
proof -
  have mem: "\<And>P xs x. find P xs = Some x \<Longrightarrow> x \<in> set xs"
    by (auto simp: find_Some_iff)
  show ?thesis
    using assms unfolding extract_pull_quote_def Let_def
    by (auto split: option.splits dest: mem)
qed

text \<open>
  Claim C9. Whenever the extractor returns a quote, the quote has no exclamation mark and no
  question mark, and exactly one period, which is its last character: the punctuation that
  ended the sentence was consumed by the split, and only the appended period is left.
\<close>

theorem pull_quote_punctuation:
  assumes "extract_pull_quote txt max_length = Some q"
  shows "CHR ''!'' \<notin> set q \<and> CHR ''?'' \<notin> set q \<and>
         length (filter (\<lambda>c. c = CHR ''.'') q) = 1 \<and> q \<noteq> [] \<and> last q = CHR ''.''"
proof -
  from extract_pull_quote_shape [OF assms] obtain clean
    where q: "q = clean @ ''.''" and mem: "clean \<in> set (map strip (split_sentences txt))"
    by blast
  have nt: "\<And>c. c \<in> set clean \<Longrightarrow> \<not> is_terminator c"
    using sentence_no_terminator [OF mem] by blast
  have "CHR ''!'' \<notin> set clean" "CHR ''?'' \<notin> set clean" "CHR ''.'' \<notin> set clean"
    using nt by (auto simp: is_terminator_def)
  moreover from this have "filter (\<lambda>c. c = CHR ''.'') clean = []"
    by (auto simp: filter_empty_conv)
  ultimately show ?thesis by (simp add: q)
qed

theorem pull_quote_punctuation_witness:
  "extract_pull_quote ''Grandma said she would never forget that long winter! Really?'' 150 =
     Some ''Grandma said she would never forget that long winter.'' \<and>
   CHR ''!'' \<notin> set ''Grandma said she would never forget that long winter.'' \<and>
   CHR ''?'' \<notin> set ''Grandma said she would never forget that long winter.'' \<and>
   length (filter (\<lambda>c. c = CHR ''.'') ''Grandma said she would never forget that long winter.'') = 1 \<and>
   last ''Grandma said she would never forget that long winter.'' = CHR ''.''"
proof -
  have e: "extract_pull_quote ''Grandma said she would never forget that long winter! Really?'' 150 =
     Some ''Grandma said she would never forget that long winter.''"
    by (simp add: pull_quote_eval_defs)
  from pull_quote_punctuation [OF e] e show ?thesis by simp
qed

text \<open>
  Claim C5, as amended. On the text of the example with the maximal length 150 the extractor
  returns the second sentence without its exclamation mark, followed by the appended period.
\<close>

theorem pull_quote_example:
  "extract_pull_quote ''It was fine. I will always remember that summer! We laughed.'' 150 =
     Some ''I will always remember that summer.''"
  by (simp add: pull_quote_eval_defs)

text \<open>
  Claim C5, as stated, fails: the result is not the sentence with the exclamation mark kept
  before the period.
\<close>

theorem pull_quote_example_counterexample:
  "extract_pull_quote ''It was fine. I will always remember that summer! We laughed.'' 150 \<noteq>
     Some ''I will always remember that summer!.''"
  by (simp add: pull_quote_eval_defs)

section \<open>Properties of the matcher\<close>

lemma score_photos_filter:
  "score_photos names chapter_title chapter_text used ps =
     map (\<lambda>p. (photo_score names chapter_title chapter_text p, p))
       (filter (\<lambda>p. filename p \<notin> used \<and> 0 < photo_score names chapter_title chapter_text p) ps)"
  by (induction ps) (simp_all add: Let_def)

lemma insort_key_map:
  "insort_key f (g x) (map g ys) = map g (insort_key (\<lambda>y. f (g y)) x ys)"
  by (induction ys) simp_all

lemma sort_key_map: "sort_key f (map g xs) = map g (sort_key (\<lambda>y. f (g y)) xs)"
  by (induction xs) (simp_all add: insort_key_map)

lemma sort_reverse_map:
  "sort_reverse f (map g xs) = map g (sort_reverse (\<lambda>y. f (g y)) xs)"
  by (simp add: sort_reverse_def rev_map sort_key_map)

lemma mset_sort_reverse: "mset (sort_reverse f xs) = mset xs"
  by (simp add: sort_reverse_def)

lemma set_sort_reverse: "set (sort_reverse f xs) = set xs"
  by (simp add: sort_reverse_def)

lemma sort_reverse_descending: "sorted_wrt (\<lambda>a b. f b \<le> f a) (sort_reverse f xs)"
proof -
  have "sorted_wrt (\<lambda>a b. f a \<le> f b) (sort_key f (rev xs))"
    using sorted_sort_key [of f "rev xs"] by (simp add: sorted_wrt_map)
  then show ?thesis
    by (simp add: sort_reverse_def sorted_wrt_rev)
qed

lemma sort_reverse_stable:
  "filter (\<lambda>y. f y = k) (sort_reverse f xs) = filter (\<lambda>y. f y = k) xs"
proof -
  have "filter (\<lambda>y. f y = k) (sort_reverse f xs) =
        rev (filter (\<lambda>y. f y = k) (sort_key f (rev xs)))"
    by (simp add: sort_reverse_def rev_filter)
  also have "\<dots> = rev (filter (\<lambda>y. f y = k) (rev xs))"
    by (simp only: sort_key_stable)
  also have "\<dots> = filter (\<lambda>y. f y = k) xs"
    by (simp add: rev_filter)
  finally show ?thesis .
qed

lemma mark_used_eq: "mark_used used selected = used \<union> filename ` set selected"
  unfolding mark_used_def by (induction selected arbitrary: used) auto

lemma match_selected:
  "fst (match_photos_to_chapter g chapter_title chapter_text available_photos max_photos) =
     slice_to max_photos
       (sort_reverse (photo_score (family_names g) chapter_title chapter_text)
          (candidates g chapter_title chapter_text available_photos))"
proof (cases "available_photos = []")
  case True
  then show ?thesis
    by (simp add: match_photos_to_chapter_def candidates_def sort_reverse_def slice_to_def)
next
  case False
  have "map snd (slice_to max_photos ys) = slice_to max_photos (map snd ys)"
    for ys :: "(int \<times> photo) list"
    by (simp add: slice_to_def take_map)
  with False show ?thesis
    by (simp add: match_photos_to_chapter_def Let_def score_photos_filter candidates_def
        sort_reverse_map comp_def)
qed

lemma match_used_images:
  "used_images (snd (match_photos_to_chapter g chapter_title chapter_text available_photos
                       max_photos)) =
     used_images g \<union>
     filename ` set (fst (match_photos_to_chapter g chapter_title chapter_text available_photos
                            max_photos))"
  by (simp add: match_photos_to_chapter_def Let_def mark_used_eq)

lemma match_family_names:
  "family_names (snd (match_photos_to_chapter g chapter_title chapter_text available_photos
                        max_photos)) = family_names g"
  by (simp add: match_photos_to_chapter_def Let_def)

lemma set_slice_to_subset: "set (slice_to n xs) \<subseteq> set xs"
  by (auto simp: slice_to_def dest: in_set_takeD)

lemma match_selected_candidates:
  "set (fst (match_photos_to_chapter g chapter_title chapter_text available_photos max_photos))
     \<subseteq> set (candidates g chapter_title chapter_text available_photos)"
proof -
  let ?ranked = "sort_reverse (photo_score (family_names g) chapter_title chapter_text)
                   (candidates g chapter_title chapter_text available_photos)"
  have "set (slice_to max_photos ?ranked) \<subseteq> set ?ranked"
    by (rule set_slice_to_subset)
  then show ?thesis
    by (simp add: match_selected set_sort_reverse)
qed

text \<open>
  Claim C4. A matching call with a non-negative \<open>max_photos\<close> returns the first
  \<open>max_photos\<close> entries of a ranking of its candidates: the ranking holds exactly the
  candidates, is in descending order of score, and keeps candidates of equal score in their
  catalog order. The call returns at most \<open>max_photos\<close> photos, and afterwards the used set
  is the old one plus the filenames of the photos returned.
\<close>

theorem match_ranking:
  assumes "0 \<le> max_photos"
  shows "\<exists>ranked.
     fst (match_photos_to_chapter g chapter_title chapter_text available_photos max_photos) =
       take (nat max_photos) ranked \<and>
     mset ranked = mset (candidates g chapter_title chapter_text available_photos) \<and>
     sorted_wrt (\<lambda>a b. photo_score (family_names g) chapter_title chapter_text b \<le>
                       photo_score (family_names g) chapter_title chapter_text a) ranked \<and>
     (\<forall>k. filter (\<lambda>p. photo_score (family_names g) chapter_title chapter_text p = k) ranked =
          filter (\<lambda>p. photo_score (family_names g) chapter_title chapter_text p = k)
            (candidates g chapter_title chapter_text available_photos)) \<and>
     int (length (fst (match_photos_to_chapter g chapter_title chapter_text available_photos
                         max_photos))) \<le> max_photos \<and>
     used_images (snd (match_photos_to_chapter g chapter_title chapter_text available_photos
                         max_photos)) =
       used_images g \<union>
       filename ` set (fst (match_photos_to_chapter g chapter_title chapter_text
                              available_photos max_photos))"
proof -
  let ?score = "photo_score (family_names g) chapter_title chapter_text"
  let ?ranked = "sort_reverse ?score (candidates g chapter_title chapter_text available_photos)"
  have sel: "fst (match_photos_to_chapter g chapter_title chapter_text available_photos
                    max_photos) = take (nat max_photos) ?ranked"
    using assms by (simp add: match_selected slice_to_def)
  have len: "int (length (take (nat max_photos) ?ranked)) \<le> max_photos"
    using assms by simp
  show ?thesis
    apply (rule exI [of _ ?ranked])
    apply (intro conjI allI)
         apply (rule sel)
        apply (rule mset_sort_reverse)
       apply (rule sort_reverse_descending)
      apply (rule sort_reverse_stable)
     apply (simp only: sel len)
    apply (rule match_used_images)
    done
qed

lemma match_returns_unused:
  assumes "p \<in> set (fst (match_photos_to_chapter g chapter_title chapter_text available_photos
                            max_photos))"
  shows "filename p \<notin> used_images g \<and>
         0 < photo_score (family_names g) chapter_title chapter_text p \<and>
         p \<in> set available_photos"
  using assms match_selected_candidates [of g chapter_title chapter_text available_photos max_photos]
  by (auto simp: candidates_def)

lemma distinct_slice_to: "distinct (map f xs) \<Longrightarrow> distinct (map f (slice_to n xs))"
  by (simp add: slice_to_def take_map [symmetric] del: take_map)

lemma distinct_sort_reverse:
  "distinct (map g xs) \<Longrightarrow> distinct (map g (sort_reverse f xs))"
proof -
  have "mset (map g (sort_reverse f xs)) = mset (map g xs)"
    by (simp add: mset_sort_reverse)
  then show "distinct (map g xs) \<Longrightarrow> distinct (map g (sort_reverse f xs))"
    using mset_eq_imp_distinct_iff by blast
qed

lemma match_selected_distinct:
  assumes "distinct (map filename available_photos)"
  shows "distinct (map filename (fst (match_photos_to_chapter g chapter_title chapter_text
                                        available_photos max_photos)))"
  unfolding match_selected candidates_def
  by (intro distinct_slice_to distinct_sort_reverse distinct_map_filter assms)

lemma match_used_growth:
  assumes "distinct (map filename available_photos)" and "finite (used_images g)"
  shows "card (used_images (snd (match_photos_to_chapter g chapter_title chapter_text
                                   available_photos max_photos))) =
         card (used_images g) +
         length (fst (match_photos_to_chapter g chapter_title chapter_text available_photos
                        max_photos))"
proof -
  let ?sel = "fst (match_photos_to_chapter g chapter_title chapter_text available_photos
                     max_photos)"
  have d: "distinct (map filename ?sel)"
    by (rule match_selected_distinct [OF assms(1)])
  have disj: "used_images g \<inter> filename ` set ?sel = {}"
    using match_returns_unused [of _ g chapter_title chapter_text available_photos max_photos]
    by auto
  have "card (filename ` set ?sel) = length ?sel"
    using d distinct_card [of "map filename ?sel"] by simp
  with disj assms(2) show ?thesis
    by (simp add: match_used_images card_Un_disjoint)
qed

subsection \<open>A worked catalog\<close>

lemma trip_keywords:
  "chapter_keywords (chapter_combined_of ''The 1990 trip'' ''We went.'') = [''1990'', ''trip'', ''went'']"
  by code_simp

lemma trip_year: "chapter_year_of ''The 1990 trip'' = Some 1990"
  by code_simp

lemma lake_text: "photo_text_of (photo_in name y) = ''lake  ''"
  by (simp add: photo_text_of_def photo_in_def) code_simp

lemma lake_no_keyword:
  "str_in ''1990'' ''lake  '' = False" "str_in ''trip'' ''lake  '' = False"
  "str_in ''went'' ''lake  '' = False"
  by simp_all

lemma trip_score:
  "photo_score [] ''The 1990 trip'' ''We went.'' (photo_in name y) =
     year_points (Some 1990) (Some y)"
  by (simp add: photo_score_def Let_def trip_keywords trip_year lake_text lake_no_keyword)
    (simp add: photo_in_def)

lemmas match_eval =
  match_photos_to_chapter_def Let_def trip_score year_points_def year_truthy_def
  sort_reverse_def slice_to_def mark_used_def photo_named_def trip_chapter_def

lemma ranking_example:
  "match_photos_to_chapter fresh ''The 1990 trip'' ''We went.''
     [photo_in ''b.jpg'' 1992, photo_in ''a.jpg'' 1990, photo_in ''d.jpg'' 1995,
      photo_in ''c.jpg'' 1990, photo_in ''e.jpg'' 1992] 3 =
   ([photo_in ''a.jpg'' 1990, photo_in ''c.jpg'' 1990, photo_in ''b.jpg'' 1992],
    fresh\<lparr>used_images := {''a.jpg'', ''c.jpg'', ''b.jpg''}\<rparr>)"
  by (simp add: match_eval fresh_def) (auto simp: photo_in_def)

theorem match_ranking_witness:
  "(0::int) \<le> 3 \<and>
   fst (match_photos_to_chapter fresh ''The 1990 trip'' ''We went.''
     [photo_in ''b.jpg'' 1992, photo_in ''a.jpg'' 1990, photo_in ''d.jpg'' 1995,
      photo_in ''c.jpg'' 1990, photo_in ''e.jpg'' 1992] 3) =
     [photo_in ''a.jpg'' 1990, photo_in ''c.jpg'' 1990, photo_in ''b.jpg'' 1992] \<and>
   (\<exists>ranked.
      [photo_in ''a.jpg'' 1990, photo_in ''c.jpg'' 1990, photo_in ''b.jpg'' 1992] = take 3 ranked \<and>
      mset ranked = mset (candidates fresh ''The 1990 trip'' ''We went.''
        [photo_in ''b.jpg'' 1992, photo_in ''a.jpg'' 1990, photo_in ''d.jpg'' 1995,
         photo_in ''c.jpg'' 1990, photo_in ''e.jpg'' 1992]) \<and>
      sorted_wrt (\<lambda>a b. photo_score [] ''The 1990 trip'' ''We went.'' b \<le>
                        photo_score [] ''The 1990 trip'' ''We went.'' a) ranked)"
proof -
  have h: "(0::int) \<le> 3" by simp
  from match_ranking [OF h, of fresh "''The 1990 trip''" "''We went.''"
      "[photo_in ''b.jpg'' 1992, photo_in ''a.jpg'' 1990, photo_in ''d.jpg'' 1995,
        photo_in ''c.jpg'' 1990, photo_in ''e.jpg'' 1992]"]
  obtain ranked where
    "fst (match_photos_to_chapter fresh ''The 1990 trip'' ''We went.''
       [photo_in ''b.jpg'' 1992, photo_in ''a.jpg'' 1990, photo_in ''d.jpg'' 1995,
        photo_in ''c.jpg'' 1990, photo_in ''e.jpg'' 1992] 3) = take (nat 3) ranked"
    and "mset ranked = mset (candidates fresh ''The 1990 trip'' ''We went.''
        [photo_in ''b.jpg'' 1992, photo_in ''a.jpg'' 1990, photo_in ''d.jpg'' 1995,
         photo_in ''c.jpg'' 1990, photo_in ''e.jpg'' 1992])"
    and "sorted_wrt (\<lambda>a b. photo_score (family_names fresh) ''The 1990 trip'' ''We went.'' b \<le>
                        photo_score (family_names fresh) ''The 1990 trip'' ''We went.'' a) ranked"
    by blast
  with h ranking_example show ?thesis
    by (auto simp: fresh_def)
qed

subsection \<open>The score\<close>

text \<open>
  Accented letters are word characters and have a lower case; the multiplication and division
  signs are neither; the no-break space is stripped. A keyword with an accent is found in a
  title written in capitals.
\<close>

lemma accented_characters:
  "is_word_char (CHR 0xE9) \<and> is_word_char (CHR 0xC9) \<and> lower_char (CHR 0xC9) = CHR 0xE9 \<and>
   \<not> is_word_char (CHR 0xD7) \<and> \<not> is_word_char (CHR 0xF7) \<and>
   lower_char (CHR 0xD7) = CHR 0xD7 \<and> lower_char (CHR 0xDF) = CHR 0xDF \<and>
   is_space (CHR 0xA0) \<and> is_space (CHR 0x85) \<and> strip (CHR 0xA0 # ''a '') = ''a''"
  by code_simp

lemma accented_keyword:
  "chapter_keywords (chapter_combined_of (''Le caf'' @ [CHR 0xE9]) ''noir'') =
     [''caf'' @ [CHR 0xE9], ''noir''] \<and>
   photo_text_of cafe_photo = ''caf'' @ [CHR 0xE9] @ ''  '' \<and>
   photo_score [] (''Le caf'' @ [CHR 0xE9]) ''noir'' cafe_photo = 5"
  by code_simp

text \<open>
  The year of a chapter is read from the leftmost place of its title where four digits
  stand in a row; the keywords are distinct words of four characters or more.
\<close>

lemma search_year_first_run:
  assumes "search_year t = Some ds"
  shows "\<exists>pre post. t = pre @ ds @ post \<and> length ds = 4 \<and> list_all is_digit ds \<and>
           (\<forall>i < length pre. \<not> (4 \<le> length (drop i t) \<and> list_all is_digit (take 4 (drop i t))))"
  using assms
proof (induction t)
  case Nil
  then show ?case by simp
next
  case (Cons c cs)
  show ?case
  proof (cases "4 \<le> length (c # cs) \<and> list_all is_digit (take 4 (c # cs))")
    case True
    with Cons.prems have ds: "ds = take 4 (c # cs)" by simp
    have "c # cs = [] @ ds @ drop 4 (c # cs)"
      unfolding ds by simp
    moreover have "length ds = 4" "list_all is_digit ds"
      using True unfolding ds by simp_all
    ultimately show ?thesis
      by (metis length_0_conv not_less_zero list.size(3))
  next
    case False
    with Cons.prems have "search_year cs = Some ds" by (simp split: if_splits)
    from Cons.IH [OF this] obtain pre post where
      cs: "cs = pre @ ds @ post" and len: "length ds = 4" and dig: "list_all is_digit ds"
      and first: "\<forall>i < length pre.
                    \<not> (4 \<le> length (drop i cs) \<and> list_all is_digit (take 4 (drop i cs)))"
      by blast
    have "\<forall>i < length (c # pre).
            \<not> (4 \<le> length (drop i (c # cs)) \<and> list_all is_digit (take 4 (drop i (c # cs))))"
    proof (intro allI impI)
      fix i
      assume i: "i < length (c # pre)"
      show "\<not> (4 \<le> length (drop i (c # cs)) \<and> list_all is_digit (take 4 (drop i (c # cs))))"
      proof (cases i)
        case 0
        with False show ?thesis by simp
      next
        case (Suc j)
        with i first show ?thesis by simp
      qed
    qed
    moreover have "c # cs = (c # pre) @ ds @ post" using cs by simp
    ultimately show ?thesis using len dig by blast
  qed
qed

lemma word_runs_word_chars:
  "\<forall>c \<in> set cur. is_word_char c \<Longrightarrow>
   \<forall>w \<in> set (word_runs cur s). w \<noteq> [] \<and> (\<forall>c \<in> set w. is_word_char c)"
proof (induction s arbitrary: cur)
  case Nil
  then show ?case by simp
next
  case (Cons a s)
  have empty: "\<forall>w \<in> set (word_runs [] s). w \<noteq> [] \<and> (\<forall>c \<in> set w. is_word_char c)"
    by (rule Cons.IH) simp
  show ?case
  proof (cases "is_word_char a")
    case True
    with Cons.prems have "\<forall>c \<in> set (a # cur). is_word_char c" by simp
    from Cons.IH [OF this] True show ?thesis by simp
  next
    case False
    with empty Cons.prems show ?thesis by auto
  qed
qed

lemma keywords_are_long_words:
  assumes "k \<in> set (chapter_keywords s)"
  shows "4 \<le> length k \<and> (\<forall>c \<in> set k. is_word_char c)"
proof -
  have "\<forall>w \<in> set (word_runs [] s'). w \<noteq> [] \<and> (\<forall>c \<in> set w. is_word_char c)" for s'
    by (rule word_runs_word_chars) simp
  with assms show ?thesis
    by (auto simp: chapter_keywords_def findall_words_def)
qed

lemma keywords_distinct: "distinct (chapter_keywords s)"
  by (simp add: chapter_keywords_def)









lemma year_zero_scores:
  "photo_score [] ''Year 0000'' [] old_photo = 0 \<and>
   claimed_score [] ''Year 0000'' [] old_photo = 20"
  by code_simp


section \<open>Properties of the chapter layout\<close>

lemma create_chapter_html_by_layout:
  "create_chapter_html g gsp ch photos upload_folder =
     (let highlighted = highlight_names (family_names g) (narrative ch);
          paragraphs = paragraphs_of highlighted;
          pull_quote = extract_pull_quote highlighted 150
      in [ChapterOpen, ChapterTitle (title ch)] @
         (case chapter_layout g ch photos of
            FacingSpread \<Rightarrow> facing_body gsp upload_folder photos paragraphs pull_quote
          | GridWithText \<Rightarrow>
              grid_body gsp upload_folder photos paragraphs pull_quote (length highlighted)
          | EmbeddedImage \<Rightarrow> embedded_body gsp upload_folder photos paragraphs
          | SimpleLayout \<Rightarrow>
              simple_body gsp upload_folder photos paragraphs pull_quote (length highlighted)) @
         [DivClose])"
  by (simp add: create_chapter_html_def chapter_layout_def Let_def)

text \<open>
  Claim C6. With one matched photo the thresholds are strict: a highlighted text of 801
  characters, or of any length above 800, gets the facing spread; 800 characters get the
  embedded image, and up to 800 never the facing spread but the embedded image above 400
  and the simple layout otherwise. Two or more photos get the grid, no photo the simple
  layout.
\<close>

theorem layout_boundaries:
  "(length photos = 1 \<and> length (highlight_names (family_names g) (narrative ch)) = 801
      \<longrightarrow> chapter_layout g ch photos = FacingSpread) \<and>
   (length photos = 1 \<and> 800 < length (highlight_names (family_names g) (narrative ch))
      \<longrightarrow> chapter_layout g ch photos = FacingSpread) \<and>
   (length photos = 1 \<and> length (highlight_names (family_names g) (narrative ch)) = 800
      \<longrightarrow> chapter_layout g ch photos = EmbeddedImage) \<and>
   (length photos = 1 \<and> length (highlight_names (family_names g) (narrative ch)) \<le> 800
      \<longrightarrow> chapter_layout g ch photos \<noteq> FacingSpread \<and>
          chapter_layout g ch photos =
            (if 400 < length (highlight_names (family_names g) (narrative ch))
             then EmbeddedImage else SimpleLayout)) \<and>
   (2 \<le> length photos \<longrightarrow> chapter_layout g ch photos = GridWithText) \<and>
   (photos = [] \<longrightarrow> chapter_layout g ch photos = SimpleLayout)"
  by (auto simp: chapter_layout_def select_layout_def Let_def)

theorem layout_boundaries_witness:
  "chapter_layout \<lparr>used_images = {}, family_names = []\<rparr>
     \<lparr>title = ''Summer'', narrative = replicate 801 (CHR ''a'')\<rparr> [lake_photo] = FacingSpread \<and>
   chapter_layout \<lparr>used_images = {}, family_names = []\<rparr>
     \<lparr>title = ''Summer'', narrative = replicate 800 (CHR ''a'')\<rparr> [lake_photo] = EmbeddedImage \<and>
   chapter_layout \<lparr>used_images = {}, family_names = []\<rparr>
     \<lparr>title = ''Summer'', narrative = replicate 400 (CHR ''a'')\<rparr> [lake_photo] = SimpleLayout"
  using layout_boundaries [of "[lake_photo]" "\<lparr>used_images = {}, family_names = []\<rparr>"
          "\<lparr>title = ''Summer'', narrative = replicate 801 (CHR ''a'')\<rparr>"]
        layout_boundaries [of "[lake_photo]" "\<lparr>used_images = {}, family_names = []\<rparr>"
          "\<lparr>title = ''Summer'', narrative = replicate 800 (CHR ''a'')\<rparr>"]
        layout_boundaries [of "[lake_photo]" "\<lparr>used_images = {}, family_names = []\<rparr>"
          "\<lparr>title = ''Summer'', narrative = replicate 400 (CHR ''a'')\<rparr>"]
  by (simp add: highlight_names_def)

lemma strip_replicate_a: "strip (replicate n (CHR ''a'')) = replicate n (CHR ''a'')"
  by (cases n) (simp_all add: strip_def is_space_def char_code_def replicate_append_same)

lemma facing_spread_unresolved_general:
  assumes "photos = [p]"
    and "800 < length (highlight_names (family_names g) (narrative ch))"
    and "gsp upload_folder (filename p) = None"
  shows "create_chapter_html g gsp ch photos upload_folder =
           [ChapterOpen, ChapterTitle (title ch), DivClose]"
  using assms
  by (simp add: create_chapter_html_def select_layout_def facing_body_def Let_def)

lemma paragraphs_kept_unless_facing:
  assumes "chapter_layout g ch photos \<noteq> FacingSpread"
    and "para \<in> set (paragraphs_of (highlight_names (family_names g) (narrative ch)))"
  shows "Paragraph para \<in> set (create_chapter_html g gsp ch photos upload_folder)"
proof -
  let ?ps = "paragraphs_of (highlight_names (family_names g) (narrative ch))"
  have split: "para \<in> set (take 1 ?ps) \<or> para \<in> set (drop 1 ?ps)"
    using assms(2) append_take_drop_id [of 1 ?ps] by (metis Un_iff set_append)
  have short: "\<not> 1 < length ?ps \<Longrightarrow> para \<in> set (take 1 ?ps)"
    using assms(2) by simp
  show ?thesis
  proof (cases "chapter_layout g ch photos")
    case FacingSpread
    with assms(1) show ?thesis by simp
  next
    case GridWithText
    with split short show ?thesis
      by (auto simp: create_chapter_html_by_layout Let_def grid_body_def paragraph_fragments_def)
  next
    case EmbeddedImage
    with split show ?thesis
      by (auto simp: create_chapter_html_by_layout Let_def embedded_body_def
          paragraph_fragments_def)
  next
    case SimpleLayout
    with assms(2) show ?thesis
      by (auto simp: create_chapter_html_by_layout Let_def simple_body_def
          paragraph_fragments_def)
  qed
qed

lemma embedded_unresolved_photo:
  "create_chapter_html fresh missing
     \<lparr>title = ''Summer'', narrative = replicate 800 (CHR ''a'')\<rparr> [lake_photo] ''/uploads'' =
   [ChapterOpen, ChapterTitle ''Summer'', NarrativeOpen ''chapter-narrative'',
    Paragraph (replicate 800 (CHR ''a'')), DivClose,
    NarrativeOpen ''chapter-narrative'', DivClose, DivClose]"
proof -
  have "split_blank cur (replicate n (CHR ''a'')) = [rev cur @ replicate n (CHR ''a'')]"
    for cur n
  proof (induction n arbitrary: cur rule: less_induct)
    case (less n)
    show ?case
    proof (cases n)
      case 0
      then show ?thesis by simp
    next
      case (Suc m)
      show ?thesis
      proof (cases m)
        case 0
        with Suc show ?thesis by simp
      next
        case (Suc k)
        with \<open>n = Suc m\<close> less.IH [of m "CHR ''a'' # cur"] show ?thesis
          by simp
      qed
    qed
  qed
  from this [of "[]" 800]
  have "paragraphs_of (replicate 800 (CHR ''a'')) = [replicate 800 (CHR ''a'')]"
    by (simp add: paragraphs_of_def strip_replicate_a)
  then show ?thesis
    by (simp add: create_chapter_html_def select_layout_def highlight_names_def embedded_body_def
      Let_def fresh_def missing_def paragraph_fragments_def lake_photo_def photo_named_def
      photo_in_def)
qed

text \<open>
  Claim C7 fails in the facing spread. For a chapter of 801 characters with one matched photo
  whose file does not resolve, the markup is the chapter title alone: the paragraphs are
  written inside the test of the path, and are lost with the image.
\<close>

theorem facing_spread_unresolved_photo:
  "create_chapter_html fresh missing
     \<lparr>title = ''Summer'', narrative = replicate 801 (CHR ''a'')\<rparr> [lake_photo] ''/uploads'' =
   [ChapterOpen, ChapterTitle ''Summer'', DivClose]"
  by (simp add: create_chapter_html_def select_layout_def highlight_names_def facing_body_def
      Let_def fresh_def missing_def)

section \<open>Properties of the document\<close>

lemma match_empty_catalog [simp]:
  "match_photos_to_chapter g chapter_title chapter_text [] max_photos = ([], g)"
  by (simp add: match_photos_to_chapter_def)

lemma collect_thumbnails_empty_catalog:
  "collect_thumbnails gsp upload_folder [] chs g thumbs = (thumbs, g)"
  by (induction chs arbitrary: g thumbs) simp_all

lemma render_chapters_empty_catalog:
  "render_chapters gsp upload_folder [] chs g =
     (concat (map (\<lambda>ch. create_chapter_html g gsp ch [] upload_folder) chs), g, [])"
  by (induction chs arbitrary: g) simp_all

lemma chapter_without_photos_no_image:
  "f \<in> set (create_chapter_html g gsp ch [] upload_folder) \<Longrightarrow> \<not> is_image f"
  by (auto simp: create_chapter_html_def select_layout_def simple_body_def Let_def
      paragraph_fragments_def quote_fragments_def create_photo_layout_def split: option.splits)

lemma toc_entry_empty_no_image: "f \<in> set (toc_entry Map.empty ch) \<Longrightarrow> \<not> is_image f"
  by (auto simp: toc_entry_def)

lemma select_cover_empty_catalog:
  "select_cover g gsp upload_folder hero_photo [] =
     (if hero_photo \<noteq> None \<and> hero_photo \<noteq> Some []
      then gsp upload_folder (or_empty hero_photo) else None, g)"
  by (simp add: select_cover_def)

lemma build_html_load_failure:
  "build_html g0 gsp today chs doc_title subtitle upload_folder (Some (Inl e)) hero_photo names =
     (case build_html g0 gsp today chs doc_title subtitle upload_folder (Some (Inr [])) hero_photo
             names of
        (html, g, events) \<Rightarrow> (html, g, [InfoGenerating (length chs), ErrorLoading e]))"
  by (simp add: build_html_def load_photos_def Let_def select_cover_empty_catalog
      collect_thumbnails_empty_catalog render_chapters_empty_catalog split: prod.splits)

lemma build_html_empty_catalog_images:
  assumes "f \<in> set (fst (build_html g0 gsp today chs doc_title subtitle upload_folder
                            (Some (Inr [])) hero_photo names))"
    and "is_image f"
  shows "hero_photo \<noteq> None \<and> hero_photo \<noteq> Some [] \<and>
         gsp upload_folder (or_empty hero_photo) = Some (case f of CoverBackground cp \<Rightarrow> cp | _ \<Rightarrow> []) \<and>
         (\<exists>cp. f = CoverBackground cp)"
  using assms
  by (auto simp: build_html_def load_photos_def Let_def select_cover_empty_catalog
      collect_thumbnails_empty_catalog render_chapters_empty_catalog
      dest: chapter_without_photos_no_image toc_entry_empty_no_image
      split: prod.splits option.splits if_splits)

text \<open>
  Claim C8, as amended. When the query of the catalog raises, the markup is the one of a run with an
  empty catalog, and the log holds the error after the opening line. The only image such a
  document can show is the cover background of an explicitly given hero photo. The method
  returns what the renderer returns on this markup, so the failed load never reaches the
  caller.
\<close>

theorem catalog_load_failure:
  fixes write_pdf :: "fragment list \<Rightarrow> string \<Rightarrow> string + 'pdf"
  shows
  "fst (build_html g0 gsp today chs doc_title subtitle upload_folder (Some (Inl e)) hero_photo names) =
     fst (build_html g0 gsp today chs doc_title subtitle upload_folder (Some (Inr [])) hero_photo names) \<and>
   snd (snd (build_html g0 gsp today chs doc_title subtitle upload_folder (Some (Inl e)) hero_photo
               names)) = [InfoGenerating (length chs), ErrorLoading e] \<and>
   (\<forall>f \<in> set (fst (build_html g0 gsp today chs doc_title subtitle upload_folder (Some (Inl e))
                       hero_photo names)).
      is_image f \<longrightarrow>
        hero_photo \<noteq> None \<and> (\<exists>cp. f = CoverBackground cp \<and>
                                     gsp upload_folder (or_empty hero_photo) = Some cp)) \<and>
   fst (generate_biography_pdf write_pdf g0 gsp today chs doc_title subtitle upload_folder
          (Some (Inl e)) hero_photo names) =
     write_pdf (fst (build_html g0 gsp today chs doc_title subtitle upload_folder (Some (Inr []))
                       hero_photo names)) upload_folder"
proof (intro conjI ballI impI)
  let ?empty = "build_html g0 gsp today chs doc_title subtitle upload_folder (Some (Inr []))
                  hero_photo names"
  let ?failed = "build_html g0 gsp today chs doc_title subtitle upload_folder (Some (Inl e))
                   hero_photo names"
  have failed: "?failed = (fst ?empty, fst (snd ?empty), [InfoGenerating (length chs), ErrorLoading e])"
    by (simp add: build_html_load_failure split: prod.splits)
  show html: "fst ?failed = fst ?empty"
    by (simp add: failed)
  show "snd (snd ?failed) = [InfoGenerating (length chs), ErrorLoading e]"
    by (simp add: failed)
  show "fst (generate_biography_pdf write_pdf g0 gsp today chs doc_title subtitle upload_folder
          (Some (Inl e)) hero_photo names) = write_pdf (fst ?empty) upload_folder"
    by (simp add: generate_biography_pdf_def failed split: sum.splits)
  fix f
  assume "f \<in> set (fst ?failed)" and img: "is_image f"
  then have "f \<in> set (fst ?empty)" by (simp add: html)
  from build_html_empty_catalog_images [OF this img]
  show "hero_photo \<noteq> None"
    and "\<exists>cp. f = CoverBackground cp \<and> gsp upload_folder (or_empty hero_photo) = Some cp"
    by auto
qed

lemma trip_html:
  "create_chapter_html \<lparr>used_images = u, family_names = []\<rparr> gsp trip_chapter [] upload_folder =
     [ChapterOpen, ChapterTitle ''The 1990 trip'', NarrativeOpen ''chapter-narrative '',
      Paragraph ''We went.'', DivClose, DivClose]"
  by (simp add: create_chapter_html_def trip_chapter_def highlight_names_def select_layout_def
      simple_body_def column_class_def paragraphs_of_def paragraph_fragments_def
      quote_fragments_def create_photo_layout_def pull_quote_eval_defs Let_def)

lemma text_only_example:
  "build_html fresh in_folder ''May 01, 2025'' [trip_chapter] ''A Life'' ''Memoir'' ''/uploads''
     (Some (Inr [])) None None =
   ([DocOpen, CoverOpen, CoverContentOpen, Heading1 ''A Life'', Heading2 ''Memoir'',
     CreatedDate ''May 01, 2025'', DivClose, DivClose,
     TocOpen, TocHeading, TocEntryOpen, TocEntryContentOpen, TocTextOpen,
     TocChapterTitle ''The 1990 trip'', DivClose, DivClose, DivClose, DivClose,
     ChapterOpen, ChapterTitle ''The 1990 trip'', NarrativeOpen ''chapter-narrative '',
     Paragraph ''We went.'', DivClose, DivClose, DocClose],
    fresh, [InfoGenerating 1, InfoLoaded 0])"
  by (simp add: build_html_def fresh_def load_photos_def select_cover_def trip_html toc_entry_def)
     (simp add: trip_chapter_def)

theorem catalog_load_failure_witness:
  "fst (generate_biography_pdf (\<lambda>html folder. Inr (length html)) fresh in_folder ''May 01, 2025''
          [trip_chapter] ''A Life'' ''Memoir'' ''/uploads'' (Some (Inl ''database is locked''))
          None None) = Inr 25 \<and>
   snd (snd (build_html fresh in_folder ''May 01, 2025'' [trip_chapter] ''A Life'' ''Memoir''
          ''/uploads'' (Some (Inl ''database is locked'')) None None)) =
     [InfoGenerating 1, ErrorLoading ''database is locked''] \<and>
   filter is_image (fst (build_html fresh in_folder ''May 01, 2025'' [trip_chapter] ''A Life''
          ''Memoir'' ''/uploads'' (Some (Inl ''database is locked'')) None None)) = []"
  using catalog_load_failure [of fresh in_folder "''May 01, 2025''" "[trip_chapter]" "''A Life''"
      "''Memoir''" "''/uploads''" "''database is locked''" None None
      "\<lambda>html folder. Inr (length html)"]
    text_only_example
  by auto

lemma hero_cover_after_failed_load:
  "fst (build_html fresh in_folder ''May 01, 2025'' [trip_chapter] ''A Life'' ''Memoir'' ''/uploads''
     (Some (Inl ''database is locked'')) (Some ''a.jpg'') None) =
   [DocOpen, CoverOpen, CoverBackground ''/uploads/a.jpg'', CoverContentOpen,
    Heading1 ''A Life'', Heading2 ''Memoir'', CreatedDate ''May 01, 2025'', DivClose, DivClose,
    TocOpen, TocHeading, TocEntryOpen, TocEntryContentOpen, TocTextOpen,
    TocChapterTitle ''The 1990 trip'', DivClose, DivClose, DivClose, DivClose,
    ChapterOpen, ChapterTitle ''The 1990 trip'', NarrativeOpen ''chapter-narrative '',
    Paragraph ''We went.'', DivClose, DivClose, DocClose]"
  by (simp add: build_html_def fresh_def load_photos_def select_cover_def in_folder_def
      or_empty_def trip_html toc_entry_def)
     (simp add: trip_chapter_def)

text \<open>
  Claim C8, as stated, fails: with an explicit hero photo the document of a failed load is not
  text only, it shows the hero photo on the cover.
\<close>

theorem catalog_load_failure_counterexample:
  "filter is_image
     (fst (build_html fresh in_folder ''May 01, 2025'' [trip_chapter] ''A Life'' ''Memoir''
             ''/uploads'' (Some (Inl ''database is locked'')) (Some ''a.jpg'') None)) =
   [CoverBackground ''/uploads/a.jpg'']"
  by (simp add: hero_cover_after_failed_load)

text \<open>
  Claim C10. Two chapters of one list with the same title get the same entry in the table of
  contents, whatever the thumbnail loop matched for each of them.
\<close>

theorem toc_same_title_same_thumbnail:
  assumes "i < length chs" and "j < length chs" and "title (chs ! i) = title (chs ! j)"
  shows "toc_entry (toc_thumbnails gsp upload_folder available_photos chs g) (chs ! i) =
         toc_entry (toc_thumbnails gsp upload_folder available_photos chs g) (chs ! j)"
  using assms by (simp add: toc_entry_def)

lemma match_trip_first: "match_photos_to_chapter \<lparr>used_images = {}, family_names = []\<rparr> ''The 1990 trip'' ''We went.'' [photo_named ''a.jpg''] 1 =
     ([photo_named ''a.jpg''], \<lparr>used_images = {''a.jpg''}, family_names = []\<rparr>)"
  by (simp add: match_eval) (simp add: photo_in_def)

lemma match_trip_none_left: "match_photos_to_chapter \<lparr>used_images = {''a.jpg''}, family_names = []\<rparr> ''The 1990 trip'' ''We went.'' [photo_named ''a.jpg''] 3 =
     ([], \<lparr>used_images = {''a.jpg''}, family_names = []\<rparr>)"
  by (simp add: match_eval) (simp add: photo_in_def)

lemma match_trip_second: "match_photos_to_chapter \<lparr>used_images = {''a.jpg''}, family_names = []\<rparr>
       ''The 1990 trip'' ''We went.''
       [photo_named ''a.jpg'', photo_named ''b.jpg'', photo_named ''c.jpg''] 1 =
     ([photo_named ''b.jpg''], \<lparr>used_images = {''a.jpg'', ''b.jpg''}, family_names = []\<rparr>)"
  by (simp add: match_eval) (auto simp: photo_in_def)

lemma match_trip_third: "match_photos_to_chapter \<lparr>used_images = {''a.jpg'', ''b.jpg''}, family_names = []\<rparr>
       ''The 1990 trip'' ''We went.''
       [photo_named ''a.jpg'', photo_named ''b.jpg'', photo_named ''c.jpg''] 1 =
     ([photo_named ''c.jpg''],
      \<lparr>used_images = {''a.jpg'', ''b.jpg'', ''c.jpg''}, family_names = []\<rparr>)"
  by (simp add: match_eval) (auto simp: photo_in_def)

lemma lake_not_family: "str_in ''family'' (lower (ptitle (photo_in name y))) = False"
  by (simp add: photo_in_def) code_simp

lemma cover_hero:
  "select_cover g in_folder ''/uploads'' (Some ''a.jpg'') available_photos =
     (Some ''/uploads/a.jpg'', g)"
  by (simp add: select_cover_def in_folder_def or_empty_def)

lemma cover_auto:
  "select_cover \<lparr>used_images = {}, family_names = []\<rparr> in_folder ''/uploads'' None
     [photo_named ''a.jpg'', photo_named ''b.jpg'', photo_named ''c.jpg''] =
     (Some ''/uploads/a.jpg'', \<lparr>used_images = {''a.jpg''}, family_names = []\<rparr>)"
proof -
  have "auto_cover in_folder ''/uploads''
          [photo_named ''a.jpg'', photo_named ''b.jpg'', photo_named ''c.jpg''] = None"
    by (simp add: photo_named_def lake_not_family) (simp add: photo_in_def)
  then show ?thesis
    by (simp add: select_cover_def in_folder_def photo_named_def photo_in_def)
qed

lemma thumbnails_example:
  "toc_thumbnails in_folder ''/uploads''
       [photo_named ''a.jpg'', photo_named ''b.jpg'', photo_named ''c.jpg'']
       [trip_chapter, trip_chapter] \<lparr>used_images = {''a.jpg''}, family_names = []\<rparr>
       ''The 1990 trip'' = Some ''/uploads/c.jpg''"
  using match_trip_second match_trip_third
  by (simp add: toc_thumbnails_def trip_chapter_def)
     (simp add: in_folder_def photo_named_def photo_in_def)

text \<open>
  In the run below the cover takes \<open>a.jpg\<close>, the thumbnail loop matches \<open>b.jpg\<close> for the
  first chapter and \<open>c.jpg\<close> for the second, and both entries show \<open>c.jpg\<close>.
\<close>

theorem toc_same_title_same_thumbnail_witness:
  "title ([trip_chapter, trip_chapter] ! 0) = title ([trip_chapter, trip_chapter] ! 1) \<and>
   select_cover \<lparr>used_images = {}, family_names = []\<rparr> in_folder ''/uploads'' None
     [photo_named ''a.jpg'', photo_named ''b.jpg'', photo_named ''c.jpg''] =
     (Some ''/uploads/a.jpg'', \<lparr>used_images = {''a.jpg''}, family_names = []\<rparr>) \<and>
   fst (match_photos_to_chapter \<lparr>used_images = {''a.jpg''}, family_names = []\<rparr>
       ''The 1990 trip'' ''We went.''
       [photo_named ''a.jpg'', photo_named ''b.jpg'', photo_named ''c.jpg''] 1) =
     [photo_named ''b.jpg''] \<and>
   fst (match_photos_to_chapter \<lparr>used_images = {''a.jpg'', ''b.jpg''}, family_names = []\<rparr>
       ''The 1990 trip'' ''We went.''
       [photo_named ''a.jpg'', photo_named ''b.jpg'', photo_named ''c.jpg''] 1) =
     [photo_named ''c.jpg''] \<and>
   toc_entry (toc_thumbnails in_folder ''/uploads''
       [photo_named ''a.jpg'', photo_named ''b.jpg'', photo_named ''c.jpg'']
       [trip_chapter, trip_chapter] \<lparr>used_images = {''a.jpg''}, family_names = []\<rparr>)
       ([trip_chapter, trip_chapter] ! 0) =
   toc_entry (toc_thumbnails in_folder ''/uploads''
       [photo_named ''a.jpg'', photo_named ''b.jpg'', photo_named ''c.jpg'']
       [trip_chapter, trip_chapter] \<lparr>used_images = {''a.jpg''}, family_names = []\<rparr>)
       ([trip_chapter, trip_chapter] ! 1) \<and>
   toc_entry (toc_thumbnails in_folder ''/uploads''
       [photo_named ''a.jpg'', photo_named ''b.jpg'', photo_named ''c.jpg'']
       [trip_chapter, trip_chapter] \<lparr>used_images = {''a.jpg''}, family_names = []\<rparr>)
       ([trip_chapter, trip_chapter] ! 1) =
     [TocEntryOpen, TocEntryContentOpen, TocThumbnail ''/uploads/c.jpg'', TocTextOpen,
      TocChapterTitle ''The 1990 trip'', DivClose, DivClose, DivClose]"
proof -
  have i: "0 < length [trip_chapter, trip_chapter]" and j: "1 < length [trip_chapter, trip_chapter]"
    and t: "title ([trip_chapter, trip_chapter] ! 0) = title ([trip_chapter, trip_chapter] ! 1)"
    by simp_all
  have shown: "toc_entry (toc_thumbnails in_folder ''/uploads''
       [photo_named ''a.jpg'', photo_named ''b.jpg'', photo_named ''c.jpg'']
       [trip_chapter, trip_chapter] \<lparr>used_images = {''a.jpg''}, family_names = []\<rparr>)
       ([trip_chapter, trip_chapter] ! 1) =
     [TocEntryOpen, TocEntryContentOpen, TocThumbnail ''/uploads/c.jpg'', TocTextOpen,
      TocChapterTitle ''The 1990 trip'', DivClose, DivClose, DivClose]"
    using thumbnails_example by (simp add: toc_entry_def trip_chapter_def)
  from toc_same_title_same_thumbnail [OF i j t, of in_folder "''/uploads''"
      "[photo_named ''a.jpg'', photo_named ''b.jpg'', photo_named ''c.jpg'']"
      "\<lparr>used_images = {''a.jpg''}, family_names = []\<rparr>"]
    t shown cover_auto match_trip_second match_trip_third
  show ?thesis by simp
qed

lemma load_one_row:
  "load_photos (Some (Inr [media_row_named name])) = ([photo_named name], [InfoLoaded 1])"
  by (simp add: load_photos_def photo_of_row_def media_row_named_def photo_named_def photo_in_def
      or_empty_def)

text \<open>
  Claim C1 fails for an explicit hero photo. The hero photo \<open>a.jpg\<close> is resolved for the cover
  but not marked as used, so the thumbnail loop matches it again: the same file is the cover
  background and the thumbnail of the chapter.
\<close>

theorem hero_photo_repeated:
  "build_html fresh in_folder ''May 01, 2025'' [trip_chapter] ''A Life'' ''Memoir'' ''/uploads''
     (Some (Inr [media_row_named ''a.jpg''])) (Some ''a.jpg'') None =
   ([DocOpen, CoverOpen, CoverBackground ''/uploads/a.jpg'', CoverContentOpen,
     Heading1 ''A Life'', Heading2 ''Memoir'', CreatedDate ''May 01, 2025'', DivClose, DivClose,
     TocOpen, TocHeading, TocEntryOpen, TocEntryContentOpen, TocThumbnail ''/uploads/a.jpg'',
     TocTextOpen, TocChapterTitle ''The 1990 trip'', DivClose, DivClose, DivClose, DivClose,
     ChapterOpen, ChapterTitle ''The 1990 trip'', NarrativeOpen ''chapter-narrative '',
     Paragraph ''We went.'', DivClose, DivClose, DocClose],
    fresh\<lparr>used_images := {''a.jpg''}\<rparr>, [InfoGenerating 1, InfoLoaded 1])"
proof -
  have toc: "collect_thumbnails in_folder ''/uploads'' [photo_named ''a.jpg''] [trip_chapter]
               \<lparr>used_images = {}, family_names = []\<rparr> Map.empty =
             ([''The 1990 trip'' \<mapsto> ''/uploads/a.jpg''],
              \<lparr>used_images = {''a.jpg''}, family_names = []\<rparr>)"
    using match_trip_first by (simp add: trip_chapter_def) (simp add: in_folder_def photo_named_def photo_in_def)
  have chapters: "render_chapters in_folder ''/uploads'' [photo_named ''a.jpg''] [trip_chapter]
               \<lparr>used_images = {''a.jpg''}, family_names = []\<rparr> =
             ([ChapterOpen, ChapterTitle ''The 1990 trip'', NarrativeOpen ''chapter-narrative '',
               Paragraph ''We went.'', DivClose, DivClose],
              \<lparr>used_images = {''a.jpg''}, family_names = []\<rparr>, [])"
    using match_trip_none_left trip_html [of "{''a.jpg''}" in_folder "''/uploads''"] by (simp add: trip_chapter_def)
  show ?thesis
    by (simp add: build_html_def fresh_def load_one_row cover_hero toc chapters toc_entry_def
        del: collect_thumbnails.simps render_chapters.simps)
       (simp add: trip_chapter_def)
qed

text \<open>
  Claim C2 fails for an explicit hero photo. Choosing \<open>a.jpg\<close> for the cover leaves the used
  set empty, and the next matching call returns \<open>a.jpg\<close>.
\<close>

theorem hero_photo_matched_again:
  "select_cover fresh in_folder ''/uploads'' (Some ''a.jpg'') [photo_named ''a.jpg''] =
     (Some ''/uploads/a.jpg'', fresh) \<and>
   used_images fresh = {} \<and>
   match_photos_to_chapter fresh ''The 1990 trip'' ''We went.'' [photo_named ''a.jpg''] 1 =
     ([photo_named ''a.jpg''], fresh\<lparr>used_images := {''a.jpg''}\<rparr>)"
  using match_trip_first by (simp add: cover_hero) (simp add: fresh_def)

end
